theory Spec2Isabelle
  imports Main
begin

section \<open>Strings, character classes and exceptions\<close>

text \<open>
  A Python \<^verbatim>\<open>str\<close> is a sequence of Unicode code points; \<^verbatim>\<open>len\<close> counts
  code points. A character is modelled by its code point, a string by the list of them.
  Literals of the source are written as HOL strings and converted by \<open>str\<close>.
\<close>

type_synonym pystr = "nat list"

definition str :: "string \<Rightarrow> pystr" where
  "str s = map of_char s"

text \<open>
  The code points of the digit zero of every decimal-digit range of Unicode 15.0 (general
  category Nd), the database of CPython 3.12, the first version that parses
  \<^verbatim>\<open>bot.py\<close>. Each range holds the ten digits 0 to 9 in order.
\<close>

definition nd_zeros :: "nat list" where
  "nd_zeros = [48, 1632, 1776, 1984, 2406, 2534, 2662, 2790, 2918, 3046, 3174, 3302, 3430,
     3558, 3664, 3792, 3872, 4160, 4240, 6112, 6160, 6470, 6608, 6784, 6800, 6992, 7088,
     7232, 7248, 42528, 43216, 43264, 43472, 43504, 43600, 44016, 65296, 66720, 68912,
     69734, 69872, 69942, 70096, 70384, 70736, 70864, 71248, 71360, 71472, 71904, 72016,
     72784, 73040, 73120, 73552, 92768, 92864, 93008, 120782, 120792, 120802, 120812,
     120822, 123200, 123632, 124144, 125264, 130032]"

text \<open>
  The other characters with Unicode property Numeric\_Type=Digit (superscripts, circled
  digits and the like), as inclusive ranges: \<^verbatim>\<open>str.isdigit\<close> accepts them,
  \<^verbatim>\<open>str.isdecimal\<close>, \<^verbatim>\<open>\d\<close> and \<^verbatim>\<open>int\<close> do not.
\<close>

definition digit_extra :: "(nat \<times> nat) list" where
  "digit_extra = [(178, 179), (185, 185), (4969, 4977), (6618, 6618), (8304, 8304),
     (8308, 8313), (8320, 8329), (9312, 9320), (9332, 9340), (9352, 9360), (9450, 9450),
     (9461, 9469), (9471, 9471), (10102, 10110), (10112, 10120), (10122, 10130),
     (68160, 68163), (69216, 69224), (69714, 69722), (127232, 127242)]"

definition decimal_value :: "nat \<Rightarrow> nat option" where
  "decimal_value c =
     (case find (\<lambda>z. z \<le> c \<and> c < z + 10) nd_zeros of
        None \<Rightarrow> None
      | Some z \<Rightarrow> Some (c - z))"

definition isdecimal_char :: "nat \<Rightarrow> bool" where
  "isdecimal_char c = (decimal_value c \<noteq> None)"

definition isdigit_char :: "nat \<Rightarrow> bool" where
  "isdigit_char c = (isdecimal_char c \<or> list_ex (\<lambda>(a, b). a \<le> c \<and> c \<le> b) digit_extra)"

text \<open>\<^verbatim>\<open>str.isdigit()\<close>: at least one character, and every character a digit.\<close>

definition isdigit :: "pystr \<Rightarrow> bool" where
  "isdigit s = (s \<noteq> [] \<and> list_all isdigit_char s)"

text \<open>
  The exceptions the core raises: the class, by which \<^verbatim>\<open>except\<close> selects, and the
  message, which \<^verbatim>\<open>str(e)\<close> returns.
\<close>

datatype exn_class = ValueError | OverflowError

datatype exn = Exn (exn_class: exn_class) (exn_msg: pystr)

section \<open>Fields\<close>

text \<open>
  A \<^verbatim>\<open>Field\<close> object holds one attribute, \<^verbatim>\<open>value\<close>; it is modelled by that
  value. \<^verbatim>\<open>Name\<close> inherits the constructor of \<^verbatim>\<open>Field\<close> unchanged.
\<close>

definition Field :: "'a \<Rightarrow> exn + 'a" where
  "Field v = Inr v"

definition Name :: "pystr \<Rightarrow> exn + pystr" where
  "Name v = Field v"

definition Phone :: "pystr \<Rightarrow> exn + pystr" where
  "Phone v =
     (if \<not> isdigit v \<or> length v \<noteq> 10
      then Inl (Exn ValueError (str ''The phone number must contain 10 digits!''))
      else Field v)"

section \<open>Calendar dates\<close>

text \<open>
  \<^verbatim>\<open>datetime.date\<close>: the proleptic Gregorian calendar, years 1 to 9999. The
  functions follow CPython's \<^verbatim>\<open>datetime\<close> module; a constructor that rejects
  its fields raises \<^verbatim>\<open>ValueError\<close>.
\<close>

record date =
  year :: nat
  month :: nat
  day :: nat

definition is_leap :: "nat \<Rightarrow> bool" where
  "is_leap y = (y mod 4 = 0 \<and> (y mod 100 \<noteq> 0 \<or> y mod 400 = 0))"

definition days_in_month :: "nat \<Rightarrow> nat \<Rightarrow> nat" where
  "days_in_month y m =
     (if m = 2 \<and> is_leap y then 29
      else [31, 28, 31, 30, 31, 30, 31, 31, 30, 31, 30, 31] ! (m - 1))"

definition days_before_year :: "nat \<Rightarrow> nat" where
  "days_before_year y = (y - 1) * 365 + (y - 1) div 4 - (y - 1) div 100 + (y - 1) div 400"

definition days_before_month :: "nat \<Rightarrow> nat \<Rightarrow> nat" where
  "days_before_month y m =
     [0, 31, 59, 90, 120, 151, 181, 212, 243, 273, 304, 334] ! (m - 1)
       + (if m > 2 \<and> is_leap y then 1 else 0)"

text \<open>\<^verbatim>\<open>date.toordinal()\<close>: 1 January of year 1 is day 1.\<close>

definition toordinal :: "date \<Rightarrow> nat" where
  "toordinal d = days_before_year (year d) + days_before_month (year d) (month d) + day d"

text \<open>\<^verbatim>\<open>date.weekday()\<close>: Monday is 0, Saturday 5, Sunday 6.\<close>

definition weekday :: "date \<Rightarrow> nat" where
  "weekday d = (toordinal d + 6) mod 7"

definition valid_date :: "date \<Rightarrow> bool" where
  "valid_date d =
     (1 \<le> year d \<and> year d \<le> 9999 \<and> 1 \<le> month d \<and> month d \<le> 12 \<and>
      1 \<le> day d \<and> day d \<le> days_in_month (year d) (month d))"

fun dec :: "nat \<Rightarrow> pystr" where
  "dec n = (if n < 10 then [48 + n] else dec (n div 10) @ [48 + n mod 10])"

text \<open>\<^verbatim>\<open>date(y, m, d)\<close>, with the checks in CPython's order.\<close>

definition date_new :: "nat \<Rightarrow> nat \<Rightarrow> nat \<Rightarrow> exn + date" where
  "date_new y m d =
     (if \<not> (1 \<le> y \<and> y \<le> 9999)
      then Inl (Exn ValueError (str ''year '' @ dec y @ str '' is out of range''))
      else if \<not> (1 \<le> m \<and> m \<le> 12)
      then Inl (Exn ValueError (str ''month must be in 1..12''))
      else if \<not> (1 \<le> d \<and> d \<le> days_in_month y m)
      then Inl (Exn ValueError (str ''day is out of range for month''))
      else Inr \<lparr>year = y, month = m, day = d\<rparr>)"

text \<open>\<^verbatim>\<open>d.replace(year=y)\<close> builds a new date from the changed fields.\<close>

definition replace_year :: "date \<Rightarrow> nat \<Rightarrow> exn + date" where
  "replace_year d y = date_new y (month d) (day d)"

text \<open>\<^verbatim>\<open>a < b\<close> on dates compares year, month and day in this order.\<close>

definition date_lt :: "date \<Rightarrow> date \<Rightarrow> bool" where
  "date_lt a b =
     (year a < year b \<or>
      (year a = year b \<and> (month a < month b \<or> (month a = month b \<and> day a < day b))))"

text \<open>\<^verbatim>\<open>(a - b).days\<close>.\<close>

definition days_between :: "date \<Rightarrow> date \<Rightarrow> int" where
  "days_between a b = int (toordinal a) - int (toordinal b)"

text \<open>
  \<^verbatim>\<open>d + timedelta(days=n)\<close> for \<open>n \<ge> 0\<close>: the date \<open>n\<close> days after \<open>d\<close>,
  \<^verbatim>\<open>OverflowError\<close> past 31 December 9999.
\<close>

definition next_day :: "date \<Rightarrow> date" where
  "next_day d =
     (if day d < days_in_month (year d) (month d) then d\<lparr>day := day d + 1\<rparr>
      else if month d < 12 then \<lparr>year = year d, month = month d + 1, day = 1\<rparr>
      else \<lparr>year = year d + 1, month = 1, day = 1\<rparr>)"

fun date_add :: "date \<Rightarrow> nat \<Rightarrow> exn + date" where
  "date_add d 0 = Inr d"
| "date_add d (Suc n) =
     (if year d = 9999 \<and> month d = 12 \<and> day d = 31
      then Inl (Exn OverflowError (str ''date value out of range''))
      else date_add (next_day d) n)"

text \<open>
  \<^verbatim>\<open>d.strftime("%d.%m.%Y")\<close>: day and month zero-filled to two digits, the year
  to four (the width the library documents; every year from 1000 on has four digits on
  every platform).
\<close>

definition zfill :: "nat \<Rightarrow> pystr \<Rightarrow> pystr" where
  "zfill w s = replicate (w - length s) 48 @ s"

definition strftime :: "date \<Rightarrow> pystr" where
  "strftime d = zfill 2 (dec (day d)) @ str ''.'' @ zfill 2 (dec (month d)) @ str ''.''
     @ zfill 4 (dec (year d))"

section \<open>The birthday field\<close>

text \<open>
  \<^verbatim>\<open>datetime.strptime(value, "%d.%m.%Y")\<close> compiles the format into the regular
  expression \<^verbatim>\<open>(?P<d>3[0-1]|[1-2]\d|0[1-9]|[1-9]| [1-9])\.(?P<m>1[0-2]|0[1-9]|[1-9])\.(?P<Y>\d\d\d\d)\<close>
  (the table of \<^verbatim>\<open>_strptime.TimeRE\<close>), matches it at the start of the string and
  rejects a match that does not reach the end of the string. A group is a list of
  alternatives tried in order, an alternative a sequence of character classes;
  \<^verbatim>\<open>\d\<close> is any Unicode decimal digit.
\<close>

type_synonym cls = "nat \<Rightarrow> bool"

definition lit :: "nat \<Rightarrow> cls" where
  "lit a c = (c = a)"

definition rng :: "nat \<Rightarrow> nat \<Rightarrow> cls" where
  "rng a b c = (a \<le> c \<and> c \<le> b)"

definition re_d :: "cls list list" where
  "re_d = [[lit 51, rng 48 49], [rng 49 50, isdecimal_char], [lit 48, rng 49 57], [rng 49 57],
           [lit 32, rng 49 57]]"

definition re_m :: "cls list list" where
  "re_m = [[lit 49, rng 48 50], [lit 48, rng 49 57], [rng 49 57]]"

definition re_Y :: "cls list list" where
  "re_Y = [[isdecimal_char, isdecimal_char, isdecimal_char, isdecimal_char]]"

definition re_dot :: "cls list list" where
  "re_dot = [[lit 46]]"

text \<open>
  One alternative against the start of a string: the text it matches and the rest.
\<close>

fun match_seq :: "cls list \<Rightarrow> pystr \<Rightarrow> (pystr \<times> pystr) option" where
  "match_seq [] s = Some ([], s)"
| "match_seq (c # cs) [] = None"
| "match_seq (c # cs) (x # xs) =
     (if c x then map_option (\<lambda>(m, r). (x # m, r)) (match_seq cs xs) else None)"

text \<open>The matches of a group, in the order in which backtracking tries them.\<close>

definition alts :: "cls list list \<Rightarrow> pystr \<Rightarrow> (pystr \<times> pystr) list" where
  "alts re s = List.map_filter (\<lambda>cs. match_seq cs s) re"

text \<open>
  A sequence of groups against the start of a string: all matches in backtracking order
  (depth first, the alternatives of an earlier group before those of a later one), each
  with the texts of the groups and the unmatched rest. \<^verbatim>\<open>match\<close> returns the first.
\<close>

fun match_groups :: "cls list list list \<Rightarrow> pystr \<Rightarrow> (pystr list \<times> pystr) list" where
  "match_groups [] s = [([], s)]"
| "match_groups (g # gs) s =
     concat (map (\<lambda>(m, r). map (\<lambda>(ms, r'). (m # ms, r')) (match_groups gs r)) (alts g s))"

definition format_re :: "cls list list list" where
  "format_re = [re_d, re_dot, re_m, re_dot, re_Y]"

text \<open>
  \<^verbatim>\<open>int\<close> of a group: the decimal digits of any script have their digit value; the
  space that the day group may start with is skipped.
\<close>

definition int_of_group :: "pystr \<Rightarrow> nat" where
  "int_of_group s =
     foldl (\<lambda>acc c. case decimal_value c of Some v \<Rightarrow> 10 * acc + v | None \<Rightarrow> acc) 0 s"

text \<open>
  The parsed date, or \<open>None\<close> for the \<^verbatim>\<open>ValueError\<close> of \<^verbatim>\<open>strptime\<close>: no
  match, unconverted data, or fields that are no date. Its message is not modelled; the
  one caller replaces it.
\<close>

definition strptime :: "pystr \<Rightarrow> date option" where
  "strptime s =
     (case match_groups format_re s of
        [] \<Rightarrow> None
      | (found, rest) # _ \<Rightarrow>
          if rest \<noteq> [] then None
          else (case found of
                  [d, dot1, m, dot2, y] \<Rightarrow>
                    (case date_new (int_of_group y) (int_of_group m) (int_of_group d) of
                       Inl e \<Rightarrow> None
                     | Inr v \<Rightarrow> Some v)
                | _ \<Rightarrow> None))"

definition Birthday :: "pystr \<Rightarrow> exn + date" where
  "Birthday v =
     (case strptime v of
        Some d \<Rightarrow> Field d
      | None \<Rightarrow> Inl (Exn ValueError (str ''Invalid date format. Use DD.MM.YYYY!'')))"

text \<open>A string is in the language of a group when one alternative matches all of it.\<close>

definition in_group :: "cls list list \<Rightarrow> pystr \<Rightarrow> bool" where
  "in_group re s = list_ex (\<lambda>cs. list_all2 (\<lambda>c x. c x) cs s) re"


section \<open>Record\<close>

text \<open>
  A contact: the value of its \<^verbatim>\<open>Name\<close>, the values of its \<^verbatim>\<open>Phone\<close> objects
  in list order, and the date of its \<^verbatim>\<open>Birthday\<close>, if set. Every \<^verbatim>\<open>Phone\<close> in
  the list is created by \<^verbatim>\<open>add_phone\<close>, so no two list positions share an object
  and a list of values loses nothing.
\<close>

record Record =
  name :: pystr
  phones :: "pystr list"
  birthday :: "date option"

definition Record_init :: "pystr \<Rightarrow> exn + Record" where
  "Record_init n =
     (case Name n of
        Inl e \<Rightarrow> Inl e
      | Inr v \<Rightarrow> Inr \<lparr>name = v, phones = [], birthday = None\<rparr>)"

text \<open>
  A method that mutates the record returns the outcome together with the record as the
  call leaves it, also when it raises.
\<close>

definition add_phone :: "Record \<Rightarrow> pystr \<Rightarrow> (exn + unit) \<times> Record" where
  "add_phone r phone =
     (case Phone phone of
        Inl e \<Rightarrow> (Inl e, r)
      | Inr p \<Rightarrow> (Inr (), r\<lparr>phones := phones r @ [p]\<rparr>))"

definition remove_phone :: "Record \<Rightarrow> pystr \<Rightarrow> Record" where
  "remove_phone r phone = r\<lparr>phones := filter (\<lambda>p. p \<noteq> phone) (phones r)\<rparr>"

text \<open>
  The loop of \<^verbatim>\<open>edit_phone\<close>: the list after the assignment to the first phone
  whose value is \<open>old_phone\<close>, or \<open>None\<close> when the loop ends without a match.
\<close>

fun edit_scan :: "pystr list \<Rightarrow> pystr \<Rightarrow> pystr \<Rightarrow> pystr list option" where
  "edit_scan [] old_phone v = None"
| "edit_scan (phone # rest) old_phone v =
     (if phone = old_phone then Some (v # rest)
      else map_option ((#) phone) (edit_scan rest old_phone v))"

definition edit_phone :: "Record \<Rightarrow> pystr \<Rightarrow> pystr \<Rightarrow> (exn + unit) \<times> Record" where
  "edit_phone r old_phone new_phone =
     (case Phone new_phone of
        Inl e \<Rightarrow> (Inl e, r)
      | Inr new_phone_obj \<Rightarrow>
          (case edit_scan (phones r) old_phone new_phone_obj of
             Some ps \<Rightarrow> (Inr (), r\<lparr>phones := ps\<rparr>)
           | None \<Rightarrow>
               (Inl (Exn ValueError (str ''Phone number '' @ old_phone @ str '' not found!'')),
                r)))"

fun find_phone :: "Record \<Rightarrow> pystr \<Rightarrow> pystr option" where
  "find_phone r phone = find (\<lambda>number. number = phone) (phones r)"

section \<open>AddressBook\<close>

text \<open>
  \<^verbatim>\<open>UserDict.data\<close> is a \<^verbatim>\<open>dict\<close>: keys are unique and iteration follows
  insertion order, so the book is a list of key and record pairs. Assigning to a key
  that is present keeps its position.
\<close>

type_synonym AddressBook = "(pystr \<times> Record) list"

fun dict_set :: "('k \<times> 'v) list \<Rightarrow> 'k \<Rightarrow> 'v \<Rightarrow> ('k \<times> 'v) list" where
  "dict_set [] k v = [(k, v)]"
| "dict_set ((k', v') # kvs) k v =
     (if k' = k then (k', v) # kvs else (k', v') # dict_set kvs k v)"

definition add_record :: "AddressBook \<Rightarrow> Record \<Rightarrow> AddressBook" where
  "add_record book r = dict_set book (name r) r"

definition find_record :: "AddressBook \<Rightarrow> pystr \<Rightarrow> Record option" where
  "find_record book n = map_of book n"

definition delete :: "AddressBook \<Rightarrow> pystr \<Rightarrow> AddressBook" where
  "delete book n = (if n \<in> fst ` set book then filter (\<lambda>kv. fst kv \<noteq> n) book else book)"

text \<open>The two local functions of \<^verbatim>\<open>get_upcoming_birthdays\<close>.\<close>

definition find_next_weekday :: "date \<Rightarrow> int \<Rightarrow> exn + date" where
  "find_next_weekday start_date wd =
     (let days_ahead = wd - int (weekday start_date);
          days_ahead = (if days_ahead \<le> 0 then days_ahead + 7 else days_ahead)
      in date_add start_date (nat days_ahead))"

definition adjust_for_weekend :: "date \<Rightarrow> exn + date" where
  "adjust_for_weekend b = (if weekday b \<ge> 5 then find_next_weekday b 0 else Inr b)"

text \<open>An entry of the result: the dict with the keys \<^verbatim>\<open>name\<close> and \<^verbatim>\<open>birthday\<close>.\<close>

record entry =
  entry_name :: pystr
  entry_birthday :: pystr

text \<open>
  The loop over \<^verbatim>\<open>self.data.values()\<close>, with \<^verbatim>\<open>upcoming_birthdays\<close> as the
  accumulator. \<open>today\<close> stands for the value of \<^verbatim>\<open>date.today()\<close>.
\<close>

fun upcoming_loop :: "date \<Rightarrow> int \<Rightarrow> Record list \<Rightarrow> entry list \<Rightarrow> exn + entry list" where
  "upcoming_loop today days [] upcoming = Inr upcoming"
| "upcoming_loop today days (r # rs) upcoming =
     (case birthday r of
        None \<Rightarrow> upcoming_loop today days rs upcoming
      | Some b \<Rightarrow>
          (case replace_year b (year today) of
             Inl e \<Rightarrow> Inl e
           | Inr this_year \<Rightarrow>
               (case (if date_lt this_year today then replace_year b (year today + 1)
                      else Inr this_year) of
                  Inl e \<Rightarrow> Inl e
                | Inr occ \<Rightarrow>
                    if 0 \<le> days_between occ today \<and> days_between occ today \<le> days
                    then (case adjust_for_weekend occ of
                            Inl e \<Rightarrow> Inl e
                          | Inr adj \<Rightarrow>
                              upcoming_loop today days rs
                                (upcoming @ [\<lparr>entry_name = name r,
                                              entry_birthday = strftime adj\<rparr>]))
                    else upcoming_loop today days rs upcoming)))"

definition get_upcoming_birthdays :: "AddressBook \<Rightarrow> date \<Rightarrow> int \<Rightarrow> exn + entry list" where
  "get_upcoming_birthdays book today days = upcoming_loop today days (map snd book) []"

section \<open>The birthday query as the specification words it\<close>

text \<open>
  The occurrence of a birthday: this year's month and day, moved to next year once when
  this year's occurrence is before today.
\<close>

definition spec_occurrence :: "date \<Rightarrow> date \<Rightarrow> date" where
  "spec_occurrence today b =
     (if date_lt \<lparr>year = year today, month = month b, day = day b\<rparr> today
      then \<lparr>year = year today + 1, month = month b, day = day b\<rparr>
      else \<lparr>year = year today, month = month b, day = day b\<rparr>)"

text \<open>The year of that occurrence.\<close>

definition spec_target_year :: "date \<Rightarrow> date \<Rightarrow> nat" where
  "spec_target_year today b = year (spec_occurrence today b)"

text \<open>
  A record is in the window when its birthday is set and the occurrence is no earlier
  than today and no later than \<open>days\<close> days after today.
\<close>

definition spec_in_window :: "date \<Rightarrow> int \<Rightarrow> Record \<Rightarrow> bool" where
  "spec_in_window today days r =
     (case birthday r of
        None \<Rightarrow> False
      | Some b \<Rightarrow>
          int (toordinal today) \<le> int (toordinal (spec_occurrence today b)) \<and>
          int (toordinal (spec_occurrence today b)) \<le> int (toordinal today) + days)"

text \<open>The date \<open>n\<close> days later, and the business-day shift: Saturday plus 2, Sunday plus 1.\<close>

primrec add_days :: "date \<Rightarrow> nat \<Rightarrow> date" where
  "add_days d 0 = d"
| "add_days d (Suc n) = add_days (next_day d) n"

definition spec_shift :: "date \<Rightarrow> date" where
  "spec_shift d =
     (if weekday d = 5 then add_days d 2 else if weekday d = 6 then add_days d 1 else d)"

definition spec_entry :: "date \<Rightarrow> Record \<Rightarrow> entry" where
  "spec_entry today r =
     \<lparr>entry_name = name r,
      entry_birthday = strftime (spec_shift (spec_occurrence today (the (birthday r))))\<rparr>"

section \<open>Properties of the fields and of the record\<close>

lemmas char_class_defs = isdigit_def isdigit_char_def isdecimal_char_def decimal_value_def
  nd_zeros_def digit_extra_def

lemma Phone_cases:
  "Phone v =
     (if length v = 10 \<and> list_all isdigit_char v then Inr v
      else Inl (Exn ValueError (str ''The phone number must contain 10 digits!'')))"
  by (auto simp: Phone_def Field_def isdigit_def)

lemma edit_scan_None: "edit_scan ps old v = None \<longleftrightarrow> old \<notin> set ps"
  by (induction ps) auto

lemma edit_scan_Some:
  "old \<in> set ps \<Longrightarrow>
   edit_scan ps old v = Some (ps[length (takeWhile (\<lambda>p. p \<noteq> old) ps) := v])"
  by (induction ps) auto

lemma first_match_index:
  "old \<in> set ps \<Longrightarrow>
     length (takeWhile (\<lambda>p. p \<noteq> old) ps) < length ps \<and>
     ps ! length (takeWhile (\<lambda>p. p \<noteq> old) ps) = old \<and>
     (\<forall>j < length (takeWhile (\<lambda>p. p \<noteq> old) ps). ps ! j \<noteq> old)"
proof (induction ps)
  case Nil
  then show ?case by simp
next
  case (Cons p ps)
  show ?case
  proof (cases "p = old")
    case True
    then show ?thesis by simp
  next
    case False
    with Cons.prems have "old \<in> set ps" by simp
    from Cons.IH[OF this] False show ?thesis
      by (auto simp: nth_Cons split: nat.splits)
  qed
qed

lemma edit_phone_cases:
  "edit_phone r old new =
     (if \<not> (length new = 10 \<and> list_all isdigit_char new)
      then (Inl (Exn ValueError (str ''The phone number must contain 10 digits!'')), r)
      else if old \<in> set (phones r)
      then (Inr (),
            r\<lparr>phones := (phones r)[length (takeWhile (\<lambda>p. p \<noteq> old) (phones r)) := new]\<rparr>)
      else (Inl (Exn ValueError (str ''Phone number '' @ old @ str '' not found!'')), r))"
proof (cases "old \<in> set (phones r)")
  case True
  then show ?thesis
    by (simp add: edit_phone_def Phone_cases edit_scan_Some)
next
  case False
  then have "edit_scan (phones r) old new = None"
    by (simp add: edit_scan_None)
  with False show ?thesis
    by (simp add: edit_phone_def Phone_cases)
qed

text \<open>
  Claim C9. \<^verbatim>\<open>Name\<close>, and with it the creation of a \<^verbatim>\<open>Record\<close>, accepts every
  string and never fails: there is no check at all, so the empty string is accepted too.
\<close>

theorem Name_accepts_every_string:
  "Name s = Inr s \<and> Record_init s = Inr \<lparr>name = s, phones = [], birthday = None\<rparr>"
  by (simp add: Name_def Field_def Record_init_def)

theorem Name_accepts_every_string_witness:
  "Name (str ''Ann'') = Inr (str ''Ann'') \<and>
   Record_init (str ''Ann'') = Inr \<lparr>name = str ''Ann'', phones = [], birthday = None\<rparr>"
  using Name_accepts_every_string [of "str ''Ann''"] by simp

text \<open>
  The claim as the specification words it says that the empty string is rejected; the
  constructor returns a name and a record for it.
\<close>

theorem Name_accepts_empty_string:
  "Name [] = Inr [] \<and> Record_init [] = Inr \<lparr>name = [], phones = [], birthday = None\<rparr>"
  by (simp add: Name_def Field_def Record_init_def)

text \<open>
  Claim C5. \<^verbatim>\<open>Phone\<close> is meant to accept exactly the strings of ten decimal digits.
  The test is \<^verbatim>\<open>str.isdigit\<close>, which also holds for characters that are no decimal
  digits: ten times SUPERSCRIPT TWO (U+00B2) is accepted as a phone number.
\<close>

theorem Phone_accepts_superscript_digits:
  "Phone [178, 178, 178, 178, 178, 178, 178, 178, 178, 178]
     = Inr [178, 178, 178, 178, 178, 178, 178, 178, 178, 178]
   \<and> \<not> isdecimal_char 178"
  by (simp add: Phone_def Field_def char_class_defs)

theorem Phone_accepts_superscript_digits_witness:
  "Phone [178, 178, 178, 178, 178, 178, 178, 178, 178, 178]
     = Inr [178, 178, 178, 178, 178, 178, 178, 178, 178, 178]"
  by (rule conjunct1 [OF Phone_accepts_superscript_digits])

text \<open>
  Claim C4. When \<^verbatim>\<open>edit_phone\<close> raises, the record is left exactly as it was, and
  the failure is either the one of \<^verbatim>\<open>Phone(new_phone)\<close>, raised before the list is
  looked at, or the not-found error, raised when no phone equals \<open>old\<close>.
\<close>

theorem edit_phone_failure_keeps_record:
  "fst (edit_phone r old new) = Inl e \<Longrightarrow>
     snd (edit_phone r old new) = r \<and>
     (Phone new = Inl e \<or>
      (Phone new = Inr new \<and> old \<notin> set (phones r) \<and>
       e = Exn ValueError (str ''Phone number '' @ old @ str '' not found!'')))"
  by (auto simp: edit_phone_cases Phone_cases split: if_splits)

theorem edit_phone_failure_keeps_record_witness:
  "fst (edit_phone \<lparr>name = str ''Ann'', phones = [str ''3333333333'', str ''2222222222''],
                    birthday = None\<rparr> (str ''9999999999'') (str ''0000000000''))
     = Inl (Exn ValueError (str ''Phone number 9999999999 not found!'')) \<and>
   snd (edit_phone \<lparr>name = str ''Ann'', phones = [str ''3333333333'', str ''2222222222''],
                    birthday = None\<rparr> (str ''9999999999'') (str ''0000000000''))
     = \<lparr>name = str ''Ann'', phones = [str ''3333333333'', str ''2222222222''],
        birthday = None\<rparr>"
  using edit_phone_failure_keeps_record
    [of "\<lparr>name = str ''Ann'', phones = [str ''3333333333'', str ''2222222222''],
          birthday = None\<rparr>" "str ''9999999999''" "str ''0000000000''"
        "Exn ValueError (str ''Phone number 9999999999 not found!'')"]
  by (simp add: edit_phone_def Phone_def Field_def char_class_defs str_def)

text \<open>
  Claim C6. With a valid new value and at least one phone equal to \<open>old\<close> (so also with
  two or more), \<^verbatim>\<open>edit_phone\<close> succeeds and changes the list at one index only: the
  index \<open>i\<close> of the first phone equal to \<open>old\<close>. Every other position, a later duplicate
  of \<open>old\<close> included, keeps its value, as \<open>xs[i := v]\<close> says.
\<close>

theorem edit_phone_first_match:
  assumes "Phone new = Inr v" and "old \<in> set (phones r)"
  shows "edit_phone r old new =
           (Inr (),
            r\<lparr>phones := (phones r)[length (takeWhile (\<lambda>p. p \<noteq> old) (phones r)) := new]\<rparr>)
         \<and> length (takeWhile (\<lambda>p. p \<noteq> old) (phones r)) < length (phones r)
         \<and> phones r ! length (takeWhile (\<lambda>p. p \<noteq> old) (phones r)) = old
         \<and> (\<forall>j < length (takeWhile (\<lambda>p. p \<noteq> old) (phones r)). phones r ! j \<noteq> old)"
proof -
  from assms(1) have "length new = 10 \<and> list_all isdigit_char new"
    by (simp add: Phone_cases split: if_splits)
  then have "edit_phone r old new =
      (Inr (),
       r\<lparr>phones := (phones r)[length (takeWhile (\<lambda>p. p \<noteq> old) (phones r)) := new]\<rparr>)"
    using assms(2) by (simp add: edit_phone_cases)
  with first_match_index[OF assms(2)] show ?thesis by simp
qed

theorem edit_phone_first_match_witness:
  "Phone (str ''3333333333'') = Inr (str ''3333333333'') \<and>
   edit_phone \<lparr>name = str ''Ann'',
               phones = [str ''2222222222'', str ''1111111111'', str ''1111111111''],
               birthday = None\<rparr> (str ''1111111111'') (str ''3333333333'')
     = (Inr (), \<lparr>name = str ''Ann'',
                 phones = [str ''2222222222'', str ''3333333333'', str ''1111111111''],
                 birthday = None\<rparr>)"
proof -
  have valid: "Phone (str ''3333333333'') = Inr (str ''3333333333'')"
    by (simp add: Phone_def Field_def char_class_defs str_def)
  have present: "str ''1111111111'' \<in> set (phones \<lparr>name = str ''Ann'',
      phones = [str ''2222222222'', str ''1111111111'', str ''1111111111''],
      birthday = None\<rparr>)"
    by simp
  show ?thesis
    using valid edit_phone_first_match [OF valid present]
    by (simp add: str_def)
qed

text \<open>
  Claim C8. The not-found failure of \<^verbatim>\<open>edit_phone\<close> and the format failure of the
  \<^verbatim>\<open>Phone\<close> constructor are raised as the same exception class,
  \<^verbatim>\<open>ValueError\<close>; only their messages differ, and these are never equal.
\<close>

theorem edit_phone_errors_share_class:
  assumes "fst (edit_phone r old new) = Inl e" and "Phone raw = Inl e'"
  shows "exn_class e = ValueError \<and> exn_class e' = ValueError \<and>
         (Phone new = Inr new \<longrightarrow> exn_msg e \<noteq> exn_msg e')"
proof -
  from assms(2) have e': "e' = Exn ValueError (str ''The phone number must contain 10 digits!'')"
    by (simp add: Phone_cases split: if_splits)
  from assms(1) have
    "e = Exn ValueError (str ''The phone number must contain 10 digits!'') \<and>
       (\<exists>x. Phone new = Inl x) \<or>
     e = Exn ValueError (str ''Phone number '' @ old @ str '' not found!'')"
    by (auto simp: edit_phone_cases Phone_cases split: if_splits)
  with e' show ?thesis
    by (auto simp: str_def)
qed

theorem edit_phone_errors_share_class_witness:
  "fst (edit_phone \<lparr>name = str ''Ann'', phones = [], birthday = None\<rparr>
          (str ''1111111111'') (str ''2222222222''))
     = Inl (Exn ValueError (str ''Phone number 1111111111 not found!'')) \<and>
   Phone (str ''12'') = Inl (Exn ValueError (str ''The phone number must contain 10 digits!'')) \<and>
   Phone (str ''2222222222'') = Inr (str ''2222222222'') \<and>
   str ''Phone number 1111111111 not found!''
     \<noteq> str ''The phone number must contain 10 digits!''"
proof -
  have a: "fst (edit_phone \<lparr>name = str ''Ann'', phones = [], birthday = None\<rparr>
          (str ''1111111111'') (str ''2222222222''))
     = Inl (Exn ValueError (str ''Phone number 1111111111 not found!''))"
    by (simp add: edit_phone_def Phone_def Field_def char_class_defs str_def)
  have b: "Phone (str ''12'')
     = Inl (Exn ValueError (str ''The phone number must contain 10 digits!''))"
    by (simp add: Phone_def Field_def char_class_defs str_def)
  have c: "Phone (str ''2222222222'') = Inr (str ''2222222222'')"
    by (simp add: Phone_def Field_def char_class_defs str_def)
  from edit_phone_errors_share_class [OF a b] a b c show ?thesis
    by simp
qed

text \<open>
  The claim as the specification words it makes the two failures distinct kinds of
  error; on a record without phones and on a two-character phone both are
  \<^verbatim>\<open>ValueError\<close>.
\<close>

theorem edit_phone_not_found_is_ValueError:
  "fst (edit_phone \<lparr>name = str ''Ann'', phones = [], birthday = None\<rparr>
          (str ''1111111111'') (str ''2222222222''))
     = Inl (Exn ValueError (str ''Phone number 1111111111 not found!'')) \<and>
   Phone (str ''12'') = Inl (Exn ValueError (str ''The phone number must contain 10 digits!'')) \<and>
   exn_class (Exn ValueError (str ''Phone number 1111111111 not found!''))
     = exn_class (Exn ValueError (str ''The phone number must contain 10 digits!''))"
  by (simp add: edit_phone_def Phone_def Field_def char_class_defs str_def)

section \<open>Properties of the address book\<close>

lemma find_dict_set: "map_of (dict_set kvs k v) k' = (if k' = k then Some v else map_of kvs k')"
  by (induction kvs) auto

lemma dict_set_fresh: "k \<notin> fst ` set kvs \<Longrightarrow> dict_set kvs k v = kvs @ [(k, v)]"
  by (induction kvs) auto

lemma dict_set_present: "k \<in> fst ` set kvs \<Longrightarrow> map fst (dict_set kvs k v) = map fst kvs"
proof (induction kvs)
  case Nil
  then show ?case by simp
next
  case (Cons kv kvs)
  obtain k' v' where kv: "kv = (k', v')" by (cases kv)
  show ?case
  proof (cases "k' = k")
    case True
    with kv show ?thesis by simp
  next
    case False
    with Cons.prems kv have "k \<in> fst ` set kvs" by auto
    from Cons.IH[OF this] False kv show ?thesis by simp
  qed
qed

text \<open>
  Claim C7. After \<^verbatim>\<open>add_record\<close> the lookup of the record's name returns the new
  record itself, whatever was stored under the name before; every other name is looked
  up as before; a fresh name is appended as a new entry, and an existing name keeps the
  list of keys as it was.
\<close>

theorem add_record_overwrites:
  "find_record (add_record book r) (name r) = Some r \<and>
   (\<forall>k. k \<noteq> name r \<longrightarrow> find_record (add_record book r) k = find_record book k) \<and>
   (name r \<notin> fst ` set book \<longrightarrow> add_record book r = book @ [(name r, r)]) \<and>
   (name r \<in> fst ` set book \<longrightarrow> map fst (add_record book r) = map fst book)"
  by (simp add: find_record_def add_record_def find_dict_set dict_set_fresh dict_set_present)

theorem add_record_overwrites_witness:
  "find_record
     (add_record
        [(str ''Ann'', \<lparr>name = str ''Ann'', phones = [str ''1111111111''],
                        birthday = Some \<lparr>year = 1990, month = 6, day = 15\<rparr>\<rparr>)]
        \<lparr>name = str ''Ann'', phones = [], birthday = None\<rparr>)
     (str ''Ann'')
   = Some \<lparr>name = str ''Ann'', phones = [], birthday = None\<rparr> \<and>
   [] \<noteq> [(str ''Ann'', \<lparr>name = str ''Ann'', phones = [str ''1111111111''],
                        birthday = Some \<lparr>year = 1990, month = 6, day = 15\<rparr>\<rparr>)]"
  using add_record_overwrites
    [of "[(str ''Ann'', \<lparr>name = str ''Ann'', phones = [str ''1111111111''],
                        birthday = Some \<lparr>year = 1990, month = 6, day = 15\<rparr>\<rparr>)]"
        "\<lparr>name = str ''Ann'', phones = [], birthday = None\<rparr>"]
  by simp

section \<open>Properties of dates\<close>

lemma days_before_year_Suc:
  assumes "1 \<le> y"
  shows "days_before_year (Suc y) = days_before_year y + (if is_leap y then 366 else 365)"
proof -
  from assms obtain k where y: "y = Suc k" by (cases y) auto
  have a: "Suc k div 4 = k div 4 + (if Suc k mod 4 = 0 then 1 else 0)"
    by (simp add: div_Suc)
  have b: "Suc k div 100 = k div 100 + (if Suc k mod 100 = 0 then 1 else 0)"
    by (simp add: div_Suc)
  have c: "Suc k div 400 = k div 400 + (if Suc k mod 400 = 0 then 1 else 0)"
    by (simp add: div_Suc)
  have le: "k div 100 \<le> k div 4"
    by (rule div_le_mono2) simp_all
  have m1: "Suc k mod 100 = 0 \<Longrightarrow> Suc k mod 4 = 0"
    by presburger
  have m2: "Suc k mod 400 = 0 \<Longrightarrow> Suc k mod 100 = 0"
    by presburger
  define q4 q100 q400 where "q4 = k div 4" and "q100 = k div 100" and "q400 = k div 400"
  have le': "q100 \<le> q4"
    using le by (simp add: q4_def q100_def)
  have "days_before_year (Suc (Suc k)) = Suc k * 365 + Suc k div 4 - Suc k div 100 + Suc k div 400"
    by (simp add: days_before_year_def)
  also have "\<dots> = (k * 365 + q4 - q100 + q400) + (if is_leap (Suc k) then 366 else 365)"
    unfolding a b c is_leap_def q4_def[symmetric] q100_def[symmetric] q400_def[symmetric]
    using le' m1 m2
    by (cases "Suc k mod 4 = 0"; cases "Suc k mod 100 = 0"; cases "Suc k mod 400 = 0") simp_all
  also have "k * 365 + q4 - q100 + q400 = days_before_year (Suc k)"
    by (simp add: days_before_year_def q4_def q100_def q400_def)
  finally show ?thesis by (simp add: y)
qed

lemma month_disj:
  "1 \<le> m \<Longrightarrow> m \<le> (12::nat) \<Longrightarrow>
     m = 1 \<or> m = 2 \<or> m = 3 \<or> m = 4 \<or> m = 5 \<or> m = 6 \<or> m = 7 \<or> m = 8 \<or> m = 9 \<or> m = 10
       \<or> m = 11 \<or> m = 12"
  by arith

lemma month_cases:
  assumes "1 \<le> m" and "m \<le> (12::nat)"
  obtains "m = 1" | "m = 2" | "m = 3" | "m = 4" | "m = 5" | "m = 6"
    | "m = 7" | "m = 8" | "m = 9" | "m = 10" | "m = 11" | "m = 12"
  using month_disj[OF assms] by blast

lemma days_before_month_Suc:
  assumes "1 \<le> m" and "m < 12"
  shows "days_before_month y (Suc m) = days_before_month y m + days_in_month y m"
proof -
  from assms have "1 \<le> m" and "m \<le> 12" by simp_all
  then show ?thesis
    using assms(2)
    by (cases m rule: month_cases) (simp_all add: days_before_month_def days_in_month_def)
qed

lemma days_before_month_12:
  "days_before_month y 12 + days_in_month y 12 = (if is_leap y then 366 else 365)"
  by (simp add: days_before_month_def days_in_month_def)

lemma days_in_month_pos:
  assumes "1 \<le> m" and "m \<le> 12"
  shows "1 \<le> days_in_month y m"
  using assms by (cases m rule: month_cases) (simp_all add: days_in_month_def)

lemma toordinal_next_day:
  assumes "valid_date d"
  shows "toordinal (next_day d) = toordinal d + 1"
proof (cases "day d < days_in_month (year d) (month d)")
  case True
  then show ?thesis by (simp add: next_day_def toordinal_def)
next
  case False
  with assms have last: "day d = days_in_month (year d) (month d)"
    by (simp add: valid_date_def)
  show ?thesis
  proof (cases "month d < 12")
    case True
    with assms have "days_before_month (year d) (Suc (month d))
        = days_before_month (year d) (month d) + days_in_month (year d) (month d)"
      by (intro days_before_month_Suc) (simp_all add: valid_date_def)
    with False True last show ?thesis
      by (simp add: next_day_def toordinal_def)
  next
    case m12: False
    with assms have m: "month d = 12" by (simp add: valid_date_def)
    from assms have "1 \<le> year d" by (simp add: valid_date_def)
    from days_before_year_Suc[OF this] days_before_month_12[of "year d"] m last
    have "days_before_year (Suc (year d)) + days_before_month (Suc (year d)) 1 + 1
        = days_before_year (year d) + days_before_month (year d) 12 + day d + 1"
      by (simp add: days_before_month_def)
    with False m12 m show ?thesis
      by (simp add: next_day_def toordinal_def)
  qed
qed

lemma valid_next_day:
  assumes "valid_date d" and "\<not> (year d = 9999 \<and> month d = 12 \<and> day d = 31)"
  shows "valid_date (next_day d)"
proof (cases "day d < days_in_month (year d) (month d)")
  case True
  with assms(1) show ?thesis by (simp add: next_day_def valid_date_def)
next
  case False
  with assms(1) have last: "day d = days_in_month (year d) (month d)"
    by (simp add: valid_date_def)
  show ?thesis
  proof (cases "month d < 12")
    case True
    with assms(1) have "1 \<le> days_in_month (year d) (Suc (month d))"
      by (intro days_in_month_pos) (simp_all add: valid_date_def)
    with False True assms(1) show ?thesis
      by (simp add: next_day_def valid_date_def)
  next
    case m12: False
    with assms(1) have m: "month d = 12" by (simp add: valid_date_def)
    with last have "day d = 31" by (simp add: days_in_month_def)
    with assms m have "year d < 9999" by (simp add: valid_date_def)
    with False m12 assms(1) show ?thesis
      by (simp add: next_day_def valid_date_def days_in_month_def)
  qed
qed

lemma date_add_toordinal:
  "valid_date d \<Longrightarrow> date_add d n = Inr x \<Longrightarrow> valid_date x \<and> toordinal x = toordinal d + n"
proof (induction n arbitrary: d)
  case 0
  then show ?case by simp
next
  case (Suc n)
  from Suc.prems(2) have nm: "\<not> (year d = 9999 \<and> month d = 12 \<and> day d = 31)"
    and rest: "date_add (next_day d) n = Inr x"
    by (simp_all split: if_splits)
  from Suc.IH[OF valid_next_day[OF Suc.prems(1) nm] rest] toordinal_next_day[OF Suc.prems(1)]
  show ?case by simp
qed

section \<open>Properties of the birthday query\<close>

lemma date_add_one:
  "date_add d (Suc 0) =
     (if year d = 9999 \<and> month d = 12 \<and> day d = 31
      then Inl (Exn OverflowError (str ''date value out of range''))
      else Inr (next_day d))"
  by simp

lemma date_add_two:
  "date_add d 2 =
     (if year d = 9999 \<and> month d = 12 \<and> day d = 31
      then Inl (Exn OverflowError (str ''date value out of range''))
      else if year (next_day d) = 9999 \<and> month (next_day d) = 12 \<and> day (next_day d) = 31
      then Inl (Exn OverflowError (str ''date value out of range''))
      else Inr (next_day (next_day d)))"
  unfolding numeral_2_eq_2 by simp

lemmas query_eval = get_upcoming_birthdays_def replace_year_def date_new_def days_in_month_def
  is_leap_def date_lt_def days_between_def toordinal_def days_before_year_def
  days_before_month_def adjust_for_weekend_def find_next_weekday_def weekday_def
  date_add_one date_add_two next_day_def strftime_def zfill_def str_def

lemma replace_year_Inr:
  "replace_year b y = Inr d \<Longrightarrow>
     d = \<lparr>year = y, month = month b, day = day b\<rparr> \<and> valid_date d"
  by (auto simp: replace_year_def date_new_def valid_date_def split: if_splits)

lemma replace_year_leap_day:
  "\<not> is_leap y \<Longrightarrow> month b = 2 \<Longrightarrow> day b = 29 \<Longrightarrow> \<exists>e. replace_year b y = Inl e"
  by (simp add: replace_year_def date_new_def days_in_month_def)

lemma date_add_Inr: "date_add d n = Inr x \<Longrightarrow> x = add_days d n"
  by (induction n arbitrary: d) (auto split: if_splits)

lemma weekday_less: "weekday d < 7"
  by (simp add: weekday_def)

lemma adjust_for_weekend_cases:
  "adjust_for_weekend d =
     (if weekday d = 5 then date_add d 2 else if weekday d = 6 then date_add d 1 else Inr d)"
proof -
  have "weekday d < 7" by (rule weekday_less)
  then consider "weekday d < 5" | "weekday d = 5" | "weekday d = 6" by linarith
  then show ?thesis
    by cases (simp_all add: adjust_for_weekend_def find_next_weekday_def del: date_add.simps)
qed

lemma adjust_for_weekend_Inr: "adjust_for_weekend d = Inr x \<Longrightarrow> x = spec_shift d"
  by (auto simp: adjust_for_weekend_cases spec_shift_def dest: date_add_Inr
      simp del: date_add.simps split: if_splits)

lemma adjust_for_weekend_toordinal:
  assumes "valid_date d" and "adjust_for_weekend d = Inr x"
  shows "valid_date x \<and>
         toordinal x = toordinal d + (if weekday d = 5 then 2 else if weekday d = 6 then 1 else 0) \<and>
         weekday x < 5"
proof -
  have lt: "weekday d < 7" by (rule weekday_less)
  show ?thesis
  proof (cases "weekday d = 5")
    case True
    with assms(2) have "date_add d 2 = Inr x" by (simp add: adjust_for_weekend_cases)
    from date_add_toordinal[OF assms(1) this] True show ?thesis
      by (simp add: weekday_def) presburger
  next
    case n5: False
    show ?thesis
    proof (cases "weekday d = 6")
      case True
      with assms(2) have "date_add d 1 = Inr x"
        by (simp add: adjust_for_weekend_cases del: date_add.simps)
      from date_add_toordinal[OF assms(1) this] True show ?thesis
        by (simp add: weekday_def) presburger
    next
      case False
      with n5 assms lt show ?thesis
        by (simp add: adjust_for_weekend_cases)
    qed
  qed
qed

lemma upcoming_step:
  assumes "upcoming_loop today days (r # rs) acc = Inr out"
  shows "upcoming_loop today days rs
           (acc @ map (spec_entry today) (filter (spec_in_window today days) [r])) = Inr out \<and>
         (\<forall>b. birthday r = Some b \<longrightarrow>
            valid_date (spec_occurrence today b) \<and>
            (spec_in_window today days r \<longrightarrow>
               adjust_for_weekend (spec_occurrence today b)
                 = Inr (spec_shift (spec_occurrence today b))))"
proof (cases "birthday r")
  case None
  with assms show ?thesis by (simp add: spec_in_window_def)
next
  case (Some b)
  from assms Some obtain this_year where ty: "replace_year b (year today) = Inr this_year"
    by (auto split: sum.splits)
  have ty_eq: "this_year = \<lparr>year = year today, month = month b, day = day b\<rparr>"
    using replace_year_Inr[OF ty] by blast
  have ty_valid: "valid_date this_year"
    using replace_year_Inr[OF ty] by blast
  from assms Some ty obtain occ where
    occ: "(if date_lt this_year today then replace_year b (year today + 1) else Inr this_year)
            = Inr occ"
    by (auto split: sum.splits)
  have occ_eq: "occ = spec_occurrence today b"
    using occ ty_eq by (auto simp: spec_occurrence_def dest: replace_year_Inr split: if_splits)
  have occ_valid: "valid_date occ"
    using occ ty_valid by (auto dest: replace_year_Inr split: if_splits)
  have win: "spec_in_window today days r \<longleftrightarrow>
      (0 \<le> days_between occ today \<and> days_between occ today \<le> days)"
    using Some occ_eq by (auto simp: spec_in_window_def days_between_def)
  show ?thesis
  proof (cases "spec_in_window today days r")
    case True
    with assms Some ty occ win obtain adj where
      adj: "adjust_for_weekend occ = Inr adj"
      and rest: "upcoming_loop today days rs
        (acc @ [\<lparr>entry_name = name r, entry_birthday = strftime adj\<rparr>]) = Inr out"
      by (auto split: sum.splits)
    from adj have "adj = spec_shift occ" by (rule adjust_for_weekend_Inr)
    with adj rest True Some occ_eq occ_valid show ?thesis
      by (simp add: spec_entry_def)
  next
    case False
    with assms Some ty occ win have "upcoming_loop today days rs acc = Inr out"
      by (auto split: sum.splits)
    with False Some occ_eq occ_valid show ?thesis by simp
  qed
qed

lemma upcoming_loop_Inr:
  "upcoming_loop today days rs acc = Inr out \<Longrightarrow>
     out = acc @ map (spec_entry today) (filter (spec_in_window today days) rs)"
proof (induction rs arbitrary: acc)
  case Nil
  then show ?case by simp
next
  case (Cons r rs)
  from upcoming_step[OF Cons.prems]
  have "upcoming_loop today days rs
      (acc @ map (spec_entry today) (filter (spec_in_window today days) [r])) = Inr out"
    by simp
  from Cons.IH[OF this] show ?case by simp
qed

lemma upcoming_loop_selected:
  "upcoming_loop today days rs acc = Inr out \<Longrightarrow> r \<in> set rs \<Longrightarrow> birthday r = Some b \<Longrightarrow>
     valid_date (spec_occurrence today b) \<and>
     (spec_in_window today days r \<longrightarrow>
        adjust_for_weekend (spec_occurrence today b) = Inr (spec_shift (spec_occurrence today b)))"
proof (induction rs arbitrary: acc)
  case Nil
  then show ?case by simp
next
  case (Cons x rs)
  note step = upcoming_step[OF Cons.prems(1)]
  show ?case
  proof (cases "r = x")
    case True
    with step Cons.prems(3) show ?thesis by simp
  next
    case False
    with Cons.prems(2) have "r \<in> set rs" by simp
    from Cons.IH[OF _ this Cons.prems(3)] step show ?thesis by blast
  qed
qed

lemma upcoming_loop_skip:
  "(\<exists>e. upcoming_loop today days (x # rs) acc = Inl e) \<or>
   (\<exists>acc'. upcoming_loop today days (x # rs) acc = upcoming_loop today days rs acc')"
  by (auto split: option.splits sum.splits)

lemma leap_day_head:
  assumes "birthday r = Some b" and "month b = 2" and "day b = 29"
    and "\<not> is_leap (year today) \<or> \<not> is_leap (spec_target_year today b)"
  shows "\<exists>e. upcoming_loop today days (r # rs) acc = Inl e"
proof (cases "replace_year b (year today)")
  case (Inl e)
  with assms(1) show ?thesis by simp
next
  case (Inr this_year)
  have ty_eq: "this_year = \<lparr>year = year today, month = month b, day = day b\<rparr>"
    using replace_year_Inr[OF Inr] by blast
  from Inr replace_year_leap_day[OF _ assms(2,3), of "year today"]
  have leap: "is_leap (year today)" by auto
  with assms(4) have "\<not> is_leap (spec_target_year today b)" by simp
  with leap have lt: "date_lt this_year today" and nl: "\<not> is_leap (year today + 1)"
    by (auto simp: spec_target_year_def spec_occurrence_def ty_eq split: if_splits)
  from replace_year_leap_day[OF nl assms(2,3)] obtain e
    where "replace_year b (year today + 1) = Inl e" by blast
  with Inr lt assms(1) show ?thesis by simp
qed

lemma upcoming_loop_leap_day:
  assumes "r \<in> set rs" and "birthday r = Some b" and "month b = 2" and "day b = 29"
    and "\<not> is_leap (year today) \<or> \<not> is_leap (spec_target_year today b)"
  shows "\<exists>e. upcoming_loop today days rs acc = Inl e"
  using assms(1)
proof (induction rs arbitrary: acc)
  case Nil
  then show ?case by simp
next
  case (Cons x rs)
  show ?case
  proof (cases "r = x")
    case True
    with leap_day_head[OF assms(2-5), of days rs acc] show ?thesis by simp
  next
    case False
    with Cons.prems have "r \<in> set rs" by simp
    from Cons.IH[OF this] upcoming_loop_skip[of today days x rs acc] show ?thesis
      by metis
  qed
qed

lemmas spec_eval = spec_in_window_def spec_occurrence_def spec_target_year_def

text \<open>
  Claim C1. Whenever the call returns a list, the names in it are exactly the names of
  the records in the window, in the order of the book: a record is in the window when its
  birthday is set and its occurrence (this year's month and day, moved on by one year,
  once, when that is before today) is no earlier than today and no later than \<open>days\<close>
  days after it. With one record per name, a record of the book is named in the result
  if and only if it is in the window.
\<close>

theorem upcoming_birthdays_window:
  assumes "get_upcoming_birthdays book today days = Inr out"
  shows "map entry_name out = map name (filter (spec_in_window today days) (map snd book)) \<and>
         (distinct (map name (map snd book)) \<longrightarrow>
            (\<forall>r \<in> set (map snd book).
               (name r \<in> entry_name ` set out) = spec_in_window today days r))"
proof -
  let ?rs = "map snd book"
  from assms have out: "out = map (spec_entry today) (filter (spec_in_window today days) ?rs)"
    using upcoming_loop_Inr[of today days ?rs "[]" out]
    by (simp add: get_upcoming_birthdays_def)
  have names: "map entry_name out = map name (filter (spec_in_window today days) ?rs)"
    by (simp add: out spec_entry_def comp_def)
  have "(name r \<in> entry_name ` set out) = spec_in_window today days r"
    if d: "distinct (map name ?rs)" and r: "r \<in> set ?rs" for r
  proof -
    from d have inj: "inj_on name (set ?rs)"
      using distinct_map[of name ?rs] by blast
    have "entry_name ` set out = set (map entry_name out)" by simp
    also have "\<dots> = name ` {x \<in> set ?rs. spec_in_window today days x}"
      by (simp only: names set_map set_filter)
    finally have img:
      "entry_name ` set out = name ` {x \<in> set ?rs. spec_in_window today days x}" .
    show ?thesis
    proof
      assume "name r \<in> entry_name ` set out"
      with img obtain r' where r': "r' \<in> set ?rs" "spec_in_window today days r'"
        "name r = name r'" by auto
      from inj_onD[OF inj r'(3) r r'(1)] r'(2) show "spec_in_window today days r" by simp
    next
      assume "spec_in_window today days r"
      with r img show "name r \<in> entry_name ` set out" by blast
    qed
  qed
  with names show ?thesis by blast
qed

theorem upcoming_birthdays_window_witness:
  "get_upcoming_birthdays
     [(str ''Ann'', \<lparr>name = str ''Ann'', phones = [],
                     birthday = Some \<lparr>year = 1990, month = 11, day = 11\<rparr>\<rparr>),
      (str ''Cy'', \<lparr>name = str ''Cy'', phones = [], birthday = None\<rparr>),
      (str ''Di'', \<lparr>name = str ''Di'', phones = [],
                    birthday = Some \<lparr>year = 1985, month = 11, day = 3\<rparr>\<rparr>)]
     \<lparr>year = 2026, month = 11, day = 4\<rparr> 7
   = Inr [\<lparr>entry_name = str ''Ann'', entry_birthday = str ''11.11.2026''\<rparr>] \<and>
   get_upcoming_birthdays
     [(str ''Ann'', \<lparr>name = str ''Ann'', phones = [],
                     birthday = Some \<lparr>year = 1990, month = 11, day = 11\<rparr>\<rparr>),
      (str ''Cy'', \<lparr>name = str ''Cy'', phones = [], birthday = None\<rparr>),
      (str ''Di'', \<lparr>name = str ''Di'', phones = [],
                    birthday = Some \<lparr>year = 1985, month = 11, day = 3\<rparr>\<rparr>)]
     \<lparr>year = 2026, month = 11, day = 4\<rparr> 6
   = Inr [] \<and>
   map name (filter (spec_in_window \<lparr>year = 2026, month = 11, day = 4\<rparr> 7)
     (map snd
       [(str ''Ann'', \<lparr>name = str ''Ann'', phones = [],
                       birthday = Some \<lparr>year = 1990, month = 11, day = 11\<rparr>\<rparr>),
        (str ''Cy'', \<lparr>name = str ''Cy'', phones = [], birthday = None\<rparr>),
        (str ''Di'', \<lparr>name = str ''Di'', phones = [],
                      birthday = Some \<lparr>year = 1985, month = 11, day = 3\<rparr>\<rparr>)]))
   = [str ''Ann'']"
proof -
  let ?book = "[(str ''Ann'', \<lparr>name = str ''Ann'', phones = [],
                     birthday = Some \<lparr>year = 1990, month = 11, day = 11\<rparr>\<rparr>),
      (str ''Cy'', \<lparr>name = str ''Cy'', phones = [], birthday = None\<rparr>),
      (str ''Di'', \<lparr>name = str ''Di'', phones = [],
                    birthday = Some \<lparr>year = 1985, month = 11, day = 3\<rparr>\<rparr>)]"
  let ?today = "\<lparr>year = 2026, month = 11, day = 4\<rparr>"
  have run7: "get_upcoming_birthdays ?book ?today 7
      = Inr [\<lparr>entry_name = str ''Ann'', entry_birthday = str ''11.11.2026''\<rparr>]"
    by (simp add: query_eval del: date_add.simps)
  have run6: "get_upcoming_birthdays ?book ?today 6 = Inr []"
    by (simp add: query_eval del: date_add.simps)
  from upcoming_birthdays_window [OF run7]
  have "map name (filter (spec_in_window ?today 7) (map snd ?book)) = [str ''Ann'']"
    by simp
  with run7 run6 show ?thesis by blast
qed

text \<open>
  The claim as the specification words it holds for every directory state. In a book
  with a 29 February birthday the call raises in a year without that day, and a record
  whose birthday is today, examined before it, is not reported.
\<close>

theorem upcoming_birthdays_window_lost:
  "spec_in_window \<lparr>year = 2027, month = 3, day = 1\<rparr> 7
     \<lparr>name = str ''Ann'', phones = [],
      birthday = Some \<lparr>year = 1990, month = 3, day = 1\<rparr>\<rparr> \<and>
   get_upcoming_birthdays
     [(str ''Ann'', \<lparr>name = str ''Ann'', phones = [],
                     birthday = Some \<lparr>year = 1990, month = 3, day = 1\<rparr>\<rparr>),
      (str ''Bob'', \<lparr>name = str ''Bob'', phones = [],
                     birthday = Some \<lparr>year = 2000, month = 2, day = 29\<rparr>\<rparr>)]
     \<lparr>year = 2027, month = 3, day = 1\<rparr> 7
   = Inl (Exn ValueError (str ''day is out of range for month''))"
  by (simp add: query_eval spec_eval del: date_add.simps)

text \<open>
  Claim C2. Whenever the call returns a list, it holds one entry for each record in the
  window, in the order of the book, with the record's name and the date
  \<^verbatim>\<open>strftime("%d.%m.%Y")\<close> of the shifted occurrence: a Saturday moved on by 2 days, a
  Sunday by 1 day, any other day unchanged, so that the emitted day is never a Saturday
  or a Sunday. The window test is on the occurrence before the shift; the shifted date
  is not tested again.
\<close>

theorem upcoming_birthdays_weekend_shift:
  assumes "get_upcoming_birthdays book today days = Inr out"
  shows "out = map (spec_entry today) (filter (spec_in_window today days) (map snd book)) \<and>
         (\<forall>r \<in> set (filter (spec_in_window today days) (map snd book)).
            \<forall>b. birthday r = Some b \<longrightarrow>
              toordinal (spec_shift (spec_occurrence today b))
                = toordinal (spec_occurrence today b)
                  + (if weekday (spec_occurrence today b) = 5 then 2
                     else if weekday (spec_occurrence today b) = 6 then 1 else 0) \<and>
              weekday (spec_shift (spec_occurrence today b)) < 5)"
proof -
  let ?rs = "map snd book"
  from assms have loop: "upcoming_loop today days ?rs [] = Inr out"
    by (simp add: get_upcoming_birthdays_def)
  from upcoming_loop_Inr[OF loop]
  have out: "out = map (spec_entry today) (filter (spec_in_window today days) ?rs)"
    by simp
  have "toordinal (spec_shift (spec_occurrence today b))
          = toordinal (spec_occurrence today b)
            + (if weekday (spec_occurrence today b) = 5 then 2
               else if weekday (spec_occurrence today b) = 6 then 1 else 0) \<and>
        weekday (spec_shift (spec_occurrence today b)) < 5"
    if r: "r \<in> set (filter (spec_in_window today days) ?rs)" and b: "birthday r = Some b"
    for r b
  proof -
    from r have "r \<in> set ?rs" and "spec_in_window today days r" by simp_all
    with upcoming_loop_selected[OF loop _ b]
    have "valid_date (spec_occurrence today b)"
      and "adjust_for_weekend (spec_occurrence today b)
             = Inr (spec_shift (spec_occurrence today b))"
      by blast+
    from adjust_for_weekend_toordinal[OF this] show ?thesis by blast
  qed
  with out show ?thesis by blast
qed

theorem upcoming_birthdays_weekend_shift_witness:
  "get_upcoming_birthdays
     [(str ''Ann'', \<lparr>name = str ''Ann'', phones = [],
                     birthday = Some \<lparr>year = 1990, month = 11, day = 7\<rparr>\<rparr>),
      (str ''Bob'', \<lparr>name = str ''Bob'', phones = [],
                     birthday = Some \<lparr>year = 1991, month = 11, day = 8\<rparr>\<rparr>),
      (str ''Cy'', \<lparr>name = str ''Cy'', phones = [],
                    birthday = Some \<lparr>year = 1992, month = 11, day = 6\<rparr>\<rparr>)]
     \<lparr>year = 2026, month = 11, day = 4\<rparr> 4
   = Inr [\<lparr>entry_name = str ''Ann'', entry_birthday = str ''09.11.2026''\<rparr>,
          \<lparr>entry_name = str ''Bob'', entry_birthday = str ''09.11.2026''\<rparr>,
          \<lparr>entry_name = str ''Cy'', entry_birthday = str ''06.11.2026''\<rparr>] \<and>
   map (spec_entry \<lparr>year = 2026, month = 11, day = 4\<rparr>)
     (filter (spec_in_window \<lparr>year = 2026, month = 11, day = 4\<rparr> 4)
       (map snd
         [(str ''Ann'', \<lparr>name = str ''Ann'', phones = [],
                         birthday = Some \<lparr>year = 1990, month = 11, day = 7\<rparr>\<rparr>),
          (str ''Bob'', \<lparr>name = str ''Bob'', phones = [],
                         birthday = Some \<lparr>year = 1991, month = 11, day = 8\<rparr>\<rparr>),
          (str ''Cy'', \<lparr>name = str ''Cy'', phones = [],
                        birthday = Some \<lparr>year = 1992, month = 11, day = 6\<rparr>\<rparr>)]))
   = [\<lparr>entry_name = str ''Ann'', entry_birthday = str ''09.11.2026''\<rparr>,
      \<lparr>entry_name = str ''Bob'', entry_birthday = str ''09.11.2026''\<rparr>,
      \<lparr>entry_name = str ''Cy'', entry_birthday = str ''06.11.2026''\<rparr>] \<and>
   int (toordinal \<lparr>year = 2026, month = 11, day = 9\<rparr>)
     = int (toordinal \<lparr>year = 2026, month = 11, day = 4\<rparr>) + 5"
proof -
  let ?book = "[(str ''Ann'', \<lparr>name = str ''Ann'', phones = [],
                     birthday = Some \<lparr>year = 1990, month = 11, day = 7\<rparr>\<rparr>),
      (str ''Bob'', \<lparr>name = str ''Bob'', phones = [],
                     birthday = Some \<lparr>year = 1991, month = 11, day = 8\<rparr>\<rparr>),
      (str ''Cy'', \<lparr>name = str ''Cy'', phones = [],
                    birthday = Some \<lparr>year = 1992, month = 11, day = 6\<rparr>\<rparr>)]"
  let ?today = "\<lparr>year = 2026, month = 11, day = 4\<rparr>"
  let ?out = "[\<lparr>entry_name = str ''Ann'', entry_birthday = str ''09.11.2026''\<rparr>,
          \<lparr>entry_name = str ''Bob'', entry_birthday = str ''09.11.2026''\<rparr>,
          \<lparr>entry_name = str ''Cy'', entry_birthday = str ''06.11.2026''\<rparr>]"
  have run: "get_upcoming_birthdays ?book ?today 4 = Inr ?out"
    by (simp add: query_eval del: date_add.simps)
  from upcoming_birthdays_weekend_shift [OF run]
  have sel: "map (spec_entry ?today) (filter (spec_in_window ?today 4) (map snd ?book)) = ?out"
    by simp
  have ord: "int (toordinal \<lparr>year = 2026, month = 11, day = 9\<rparr>)
     = int (toordinal \<lparr>year = 2026, month = 11, day = 4\<rparr>) + 5"
    by (simp add: toordinal_def days_before_year_def days_before_month_def is_leap_def)
  from run sel ord show ?thesis by blast
qed

text \<open>
  Claim C10. If some record of the book has a birthday on 29 February and a year for
  which the record's date is computed has no 29 February (the current year, which the
  first replacement always uses, or the year of the occurrence: next year, when this
  year's occurrence is before today), the whole call raises: the result is an error and
  no list, whatever the other records are and wherever the record stands in the book.
\<close>

theorem leap_day_birthday_fails_whole_call:
  assumes "r \<in> snd ` set book" and "birthday r = Some b" and "month b = 2" and "day b = 29"
    and "\<not> is_leap (year today) \<or> \<not> is_leap (spec_target_year today b)"
  shows "\<exists>e. get_upcoming_birthdays book today days = Inl e"
proof -
  from assms(1) have "r \<in> set (map snd book)" by simp
  from upcoming_loop_leap_day[OF this assms(2-5)] show ?thesis
    by (simp add: get_upcoming_birthdays_def)
qed

theorem leap_day_birthday_fails_whole_call_witness:
  "(\<exists>e. get_upcoming_birthdays
      [(str ''Ann'', \<lparr>name = str ''Ann'', phones = [],
                      birthday = Some \<lparr>year = 1990, month = 6, day = 1\<rparr>\<rparr>),
       (str ''Bob'', \<lparr>name = str ''Bob'', phones = [],
                      birthday = Some \<lparr>year = 2000, month = 2, day = 29\<rparr>\<rparr>)]
      \<lparr>year = 2027, month = 6, day = 1\<rparr> 7 = Inl e) \<and>
   get_upcoming_birthdays
      [(str ''Ann'', \<lparr>name = str ''Ann'', phones = [],
                      birthday = Some \<lparr>year = 1990, month = 6, day = 1\<rparr>\<rparr>),
       (str ''Bob'', \<lparr>name = str ''Bob'', phones = [],
                      birthday = Some \<lparr>year = 2000, month = 2, day = 29\<rparr>\<rparr>)]
      \<lparr>year = 2027, month = 6, day = 1\<rparr> 7
     = Inl (Exn ValueError (str ''day is out of range for month'')) \<and>
   spec_target_year \<lparr>year = 2027, month = 6, day = 1\<rparr> \<lparr>year = 2000, month = 2, day = 29\<rparr>
     = 2028 \<and>
   (\<exists>e. get_upcoming_birthdays
      [(str ''Ann'', \<lparr>name = str ''Ann'', phones = [],
                      birthday = Some \<lparr>year = 1990, month = 6, day = 1\<rparr>\<rparr>),
       (str ''Bob'', \<lparr>name = str ''Bob'', phones = [],
                      birthday = Some \<lparr>year = 2000, month = 2, day = 29\<rparr>\<rparr>)]
      \<lparr>year = 2028, month = 3, day = 1\<rparr> 7 = Inl e) \<and>
   spec_target_year \<lparr>year = 2028, month = 3, day = 1\<rparr> \<lparr>year = 2000, month = 2, day = 29\<rparr>
     = 2029"
proof -
  let ?bob = "\<lparr>name = str ''Bob'', phones = [],
               birthday = Some \<lparr>year = 2000, month = 2, day = 29\<rparr>\<rparr>"
  let ?book = "[(str ''Ann'', \<lparr>name = str ''Ann'', phones = [],
                      birthday = Some \<lparr>year = 1990, month = 6, day = 1\<rparr>\<rparr>),
       (str ''Bob'', ?bob)]"
  let ?today = "\<lparr>year = 2027, month = 6, day = 1\<rparr>"
  let ?later = "\<lparr>year = 2028, month = 3, day = 1\<rparr>"
  have a: "?bob \<in> snd ` set ?book" by simp
  have b: "birthday ?bob = Some \<lparr>year = 2000, month = 2, day = 29\<rparr>" by simp
  have ty: "spec_target_year ?today \<lparr>year = 2000, month = 2, day = 29\<rparr> = 2028"
    by (simp add: spec_eval date_lt_def)
  have nl: "\<not> is_leap (year ?today) \<or>
      \<not> is_leap (spec_target_year ?today \<lparr>year = 2000, month = 2, day = 29\<rparr>)"
    by (simp add: is_leap_def)
  have fails: "\<exists>e. get_upcoming_birthdays ?book ?today 7 = Inl e"
    by (rule leap_day_birthday_fails_whole_call [OF a b _ _ nl]) simp_all
  have run: "get_upcoming_birthdays ?book ?today 7
      = Inl (Exn ValueError (str ''day is out of range for month''))"
    by (simp add: query_eval del: date_add.simps)
  have ty': "spec_target_year ?later \<lparr>year = 2000, month = 2, day = 29\<rparr> = 2029"
    by (simp add: spec_eval date_lt_def)
  have nl': "\<not> is_leap (year ?later) \<or>
      \<not> is_leap (spec_target_year ?later \<lparr>year = 2000, month = 2, day = 29\<rparr>)"
    by (simp add: spec_eval date_lt_def is_leap_def)
  have fails': "\<exists>e. get_upcoming_birthdays ?book ?later 7 = Inl e"
    by (rule leap_day_birthday_fails_whole_call [OF a b _ _ nl']) simp_all
  from fails run ty fails' ty' show ?thesis by blast
qed


section \<open>Properties of the birthday field\<close>

lemma match_seq_Some:
  "match_seq cs s = Some (m, r) \<longleftrightarrow> s = m @ r \<and> list_all2 (\<lambda>c x. c x) cs m"
proof (induction cs s arbitrary: m r rule: match_seq.induct)
  case (1 s)
  then show ?case by auto
next
  case (2 c cs)
  then show ?case by (auto simp: list_all2_Cons1)
next
  case (3 c cs x xs)
  show ?case
  proof (cases "c x")
    case True
    with 3 show ?thesis
      by (cases m) (auto simp: list_all2_Cons1)
  next
    case False
    then show ?thesis
      by (auto simp: list_all2_Cons1)
  qed
qed

lemma map_filter_set: "y \<in> set (List.map_filter f xs) \<longleftrightarrow> (\<exists>x \<in> set xs. f x = Some y)"
  by (induction xs) (auto split: option.splits)

lemma alts_set: "(m, r) \<in> set (alts re s) \<longleftrightarrow> s = m @ r \<and> in_group re m"
  by (auto simp: alts_def map_filter_set match_seq_Some in_group_def list_ex_iff)

lemma in_group_re_dot: "in_group re_dot x \<longleftrightarrow> x = [46]"
  by (auto simp: in_group_def re_dot_def lit_def list_all2_Cons1)

lemma match_groups_set:
  "(ms, r) \<in> set (match_groups gs s) \<longleftrightarrow> s = concat ms @ r \<and> list_all2 in_group gs ms"
proof (induction gs arbitrary: s ms)
  case Nil
  show ?case by auto
next
  case (Cons g gs)
  have "(ms, r) \<in> set (match_groups (g # gs) s) \<longleftrightarrow>
      (\<exists>m r1 ms'. (m, r1) \<in> set (alts g s) \<and> (ms', r) \<in> set (match_groups gs r1) \<and>
         ms = m # ms')"
    by force
  also have "\<dots> \<longleftrightarrow> (\<exists>m r1 ms'. s = m @ r1 \<and> in_group g m \<and> r1 = concat ms' @ r \<and>
      list_all2 in_group gs ms' \<and> ms = m # ms')"
    by (simp only: alts_set Cons.IH conj_assoc)
  also have "\<dots> \<longleftrightarrow> s = concat ms @ r \<and> list_all2 in_group (g # gs) ms"
    by (cases ms) auto
  finally show ?case .
qed

lemma format_matches_set:
  "(ms, r) \<in> set (match_groups format_re s) \<longleftrightarrow>
     (\<exists>d m y. ms = [d, [46], m, [46], y] \<and> s = d @ 46 # m @ 46 # y @ r \<and>
        in_group re_d d \<and> in_group re_m m \<and> in_group re_Y y)"
proof -
  have "(ms, r) \<in> set (match_groups format_re s) \<longleftrightarrow>
      s = concat ms @ r \<and> list_all2 in_group [re_d, re_dot, re_m, re_dot, re_Y] ms"
    unfolding format_re_def by (rule match_groups_set)
  also have "\<dots> \<longleftrightarrow> (\<exists>d m y. ms = [d, [46], m, [46], y] \<and> s = d @ 46 # m @ 46 # y @ r \<and>
        in_group re_d d \<and> in_group re_m m \<and> in_group re_Y y)"
    by (auto simp: list_all2_Cons1 in_group_re_dot)
  finally show ?thesis .
qed

lemma not_decimal_dot: "\<not> isdecimal_char 46"
  by (simp add: char_class_defs)

lemma in_group_re_d:
  "in_group re_d D \<longleftrightarrow>
     (\<exists>c. D = [51, c] \<and> 48 \<le> c \<and> c \<le> 49) \<or>
     (\<exists>a c. D = [a, c] \<and> 49 \<le> a \<and> a \<le> 50 \<and> isdecimal_char c) \<or>
     (\<exists>c. D = [48, c] \<and> 49 \<le> c \<and> c \<le> 57) \<or>
     (\<exists>c. D = [c] \<and> 49 \<le> c \<and> c \<le> 57) \<or>
     (\<exists>c. D = [32, c] \<and> 49 \<le> c \<and> c \<le> 57)"
  by (auto simp: in_group_def re_d_def lit_def rng_def list_all2_Cons1)

lemma in_group_re_m:
  "in_group re_m M \<longleftrightarrow>
     (\<exists>c. M = [49, c] \<and> 48 \<le> c \<and> c \<le> 50) \<or>
     (\<exists>c. M = [48, c] \<and> 49 \<le> c \<and> c \<le> 57) \<or>
     (\<exists>c. M = [c] \<and> 49 \<le> c \<and> c \<le> 57)"
  by (auto simp: in_group_def re_m_def lit_def rng_def list_all2_Cons1)

lemma in_group_re_Y:
  "in_group re_Y Y \<longleftrightarrow> length Y = 4 \<and> list_all isdecimal_char Y"
  by (auto simp: in_group_def re_Y_def list_all2_Cons1 length_Suc_conv eval_nat_numeral)

lemma re_d_no_dot: "in_group re_d D \<Longrightarrow> 46 \<notin> set D"
  using not_decimal_dot by (auto simp: in_group_re_d)

lemma re_m_no_dot: "in_group re_m M \<Longrightarrow> 46 \<notin> set M"
  by (auto simp: in_group_re_m)

lemma takeWhile_dot:
  fixes a t :: pystr
  shows "46 \<notin> set a \<Longrightarrow> takeWhile (\<lambda>c. c \<noteq> 46) (a @ 46 # t) = a"
  by (induction a) auto

lemma split_dot_unique:
  fixes a a' t t' :: pystr
  assumes "46 \<notin> set a" and "46 \<notin> set a'" and "a @ 46 # t = a' @ 46 # t'"
  shows "a = a' \<and> t = t'"
proof -
  have "takeWhile (\<lambda>c. c \<noteq> 46) (a @ 46 # t) = a"
    using assms(1) by (rule takeWhile_dot)
  moreover have "takeWhile (\<lambda>c. c \<noteq> 46) (a' @ 46 # t') = a'"
    using assms(2) by (rule takeWhile_dot)
  ultimately have "a = a'" using assms(3) by simp
  with assms(3) show ?thesis by simp
qed

lemma format_matches_unique:
  assumes "([d, [46], m, [46], y], r) \<in> set (match_groups format_re s)"
    and "(ms, r') \<in> set (match_groups format_re s)"
  shows "ms = [d, [46], m, [46], y] \<and> r' = r"
proof -
  from assms(1) have s: "s = d @ 46 # (m @ 46 # (y @ r))"
    and g: "in_group re_d d" "in_group re_m m" "in_group re_Y y"
    by (simp_all add: format_matches_set)
  from assms(2) obtain d' m' y' where ms: "ms = [d', [46], m', [46], y']"
    and s': "s = d' @ 46 # (m' @ 46 # (y' @ r'))"
    and g': "in_group re_d d'" "in_group re_m m'" "in_group re_Y y'"
    by (auto simp: format_matches_set)
  from s s' have "d @ 46 # (m @ 46 # (y @ r)) = d' @ 46 # (m' @ 46 # (y' @ r'))" by simp
  from split_dot_unique[OF re_d_no_dot[OF g(1)] re_d_no_dot[OF g'(1)] this]
  have d: "d = d'" and t: "m @ 46 # (y @ r) = m' @ 46 # (y' @ r')" by simp_all
  from split_dot_unique[OF re_m_no_dot[OF g(2)] re_m_no_dot[OF g'(2)] t]
  have m: "m = m'" and u: "y @ r = y' @ r'" by simp_all
  from g(3) g'(3) have "length y = length y'" by (simp add: in_group_re_Y)
  with u have "y = y' \<and> r = r'" by simp
  with d m ms show ?thesis by simp
qed

lemma strptime_Some:
  "strptime s = Some v \<longleftrightarrow>
     (\<exists>D M Y. s = D @ [46] @ M @ [46] @ Y \<and> in_group re_d D \<and> in_group re_m M \<and>
        in_group re_Y Y \<and> date_new (int_of_group Y) (int_of_group M) (int_of_group D) = Inr v)"
proof
  assume a: "strptime s = Some v"
  then obtain found rest tl where ms: "match_groups format_re s = (found, rest) # tl"
    by (cases "match_groups format_re s") (auto simp: strptime_def)
  then have "(found, rest) \<in> set (match_groups format_re s)" by simp
  then obtain d m y where found: "found = [d, [46], m, [46], y]"
    and s: "s = d @ 46 # m @ 46 # y @ rest"
    and g: "in_group re_d d" "in_group re_m m" "in_group re_Y y"
    by (auto simp: format_matches_set)
  from a ms found have rest: "rest = []"
    and dn: "date_new (int_of_group y) (int_of_group m) (int_of_group d) = Inr v"
    by (auto simp: strptime_def split: if_splits sum.splits)
  from s rest g dn
  show "\<exists>D M Y. s = D @ [46] @ M @ [46] @ Y \<and> in_group re_d D \<and> in_group re_m M \<and>
        in_group re_Y Y \<and> date_new (int_of_group Y) (int_of_group M) (int_of_group D) = Inr v"
    by auto
next
  assume "\<exists>D M Y. s = D @ [46] @ M @ [46] @ Y \<and> in_group re_d D \<and> in_group re_m M \<and>
        in_group re_Y Y \<and> date_new (int_of_group Y) (int_of_group M) (int_of_group D) = Inr v"
  then obtain D M Y where s: "s = D @ [46] @ M @ [46] @ Y"
    and g: "in_group re_d D" "in_group re_m M" "in_group re_Y Y"
    and dn: "date_new (int_of_group Y) (int_of_group M) (int_of_group D) = Inr v"
    by blast
  from s g have mem: "([D, [46], M, [46], Y], []) \<in> set (match_groups format_re s)"
    by (simp add: format_matches_set)
  then obtain found rest tl where ms: "match_groups format_re s = (found, rest) # tl"
    by (cases "match_groups format_re s") auto
  then have "(found, rest) \<in> set (match_groups format_re s)" by simp
  from format_matches_unique[OF mem this] have "found = [D, [46], M, [46], Y]" "rest = []"
    by simp_all
  with ms dn show "strptime s = Some v"
    by (simp add: strptime_def)
qed

text \<open>
  Claim C3. \<^verbatim>\<open>Birthday\<close> succeeds exactly on the strings day.month.year whose day is
  30 or 31, 1 or 2 followed by a decimal digit, 0 followed by 1 to 9, one digit 1 to 9,
  or a space followed by 1 to 9; whose month is 10 to 12, 0 followed by 1 to 9, or one
  digit 1 to 9; whose year is four decimal digits; and whose numbers are a date of the
  calendar in the years 1 to 9999. The result is that date. On every other string it
  fails with \<^verbatim>\<open>ValueError("Invalid date format. Use DD.MM.YYYY!")\<close>.
\<close>

theorem Birthday_accepts_iff:
  "(Birthday raw = Inr v \<longleftrightarrow>
      (\<exists>D M Y. raw = D @ str ''.'' @ M @ str ''.'' @ Y \<and>
         in_group re_d D \<and> in_group re_m M \<and> in_group re_Y Y \<and>
         date_new (int_of_group Y) (int_of_group M) (int_of_group D) = Inr v)) \<and>
   (\<forall>e. Birthday raw = Inl e \<longrightarrow>
      e = Exn ValueError (str ''Invalid date format. Use DD.MM.YYYY!''))"
proof -
  have dot: "str ''.'' = [46]" by (simp add: str_def)
  have "Birthday raw = Inr v \<longleftrightarrow> strptime raw = Some v"
    by (simp add: Birthday_def Field_def split: option.splits)
  then have a: "Birthday raw = Inr v \<longleftrightarrow>
      (\<exists>D M Y. raw = D @ [46] @ M @ [46] @ Y \<and>
         in_group re_d D \<and> in_group re_m M \<and> in_group re_Y Y \<and>
         date_new (int_of_group Y) (int_of_group M) (int_of_group D) = Inr v)"
    by (simp only: strptime_Some)
  have b: "\<forall>e. Birthday raw = Inl e \<longrightarrow>
      e = Exn ValueError (str ''Invalid date format. Use DD.MM.YYYY!'')"
    by (simp add: Birthday_def Field_def split: option.splits)
  show ?thesis
    unfolding dot by (rule conjI) (rule a, rule b)
qed

lemmas birthday_eval = Birthday_def strptime_def format_re_def alts_def
  List.map_filter_simps re_d_def re_m_def re_Y_def re_dot_def lit_def rng_def
  int_of_group_def date_new_def days_in_month_def is_leap_def Field_def char_class_defs
  str_def

theorem Birthday_accepts_iff_witness:
  "Birthday (str ''15.06.1990'') = Inr \<lparr>year = 1990, month = 6, day = 15\<rparr> \<and>
   (\<exists>D M Y. str ''15.06.1990'' = D @ str ''.'' @ M @ str ''.'' @ Y \<and>
      in_group re_d D \<and> in_group re_m M \<and> in_group re_Y Y \<and>
      date_new (int_of_group Y) (int_of_group M) (int_of_group D)
        = Inr \<lparr>year = 1990, month = 6, day = 15\<rparr>) \<and>
   Birthday (str ''1990.06.15'')
     = Inl (Exn ValueError (str ''Invalid date format. Use DD.MM.YYYY!'')) \<and>
   Birthday (str ''31.02.1990'')
     = Inl (Exn ValueError (str ''Invalid date format. Use DD.MM.YYYY!''))"
proof -
  have ok: "Birthday (str ''15.06.1990'') = Inr \<lparr>year = 1990, month = 6, day = 15\<rparr>"
    by (simp add: birthday_eval)
  have order: "Birthday (str ''1990.06.15'')
     = Inl (Exn ValueError (str ''Invalid date format. Use DD.MM.YYYY!''))"
    by (simp add: birthday_eval)
  have feb: "Birthday (str ''31.02.1990'')
     = Inl (Exn ValueError (str ''Invalid date format. Use DD.MM.YYYY!''))"
    by (simp add: birthday_eval)
  from Birthday_accepts_iff [of "str ''15.06.1990''" "\<lparr>year = 1990, month = 6, day = 15\<rparr>"] ok
  have "\<exists>D M Y. str ''15.06.1990'' = D @ str ''.'' @ M @ str ''.'' @ Y \<and>
      in_group re_d D \<and> in_group re_m M \<and> in_group re_Y Y \<and>
      date_new (int_of_group Y) (int_of_group M) (int_of_group D)
        = Inr \<lparr>year = 1990, month = 6, day = 15\<rparr>"
    by blast
  with ok order feb show ?thesis by blast
qed

text \<open>
  The claim as the specification words it rejects a one-digit day or month; the
  constructor accepts both.
\<close>

theorem Birthday_accepts_single_digits:
  "Birthday (str ''5.6.1990'') = Inr \<lparr>year = 1990, month = 6, day = 5\<rparr>"
  by (simp add: birthday_eval)

end
